theory Spec2Isabelle
  imports Complex_Main "HOL-Library.Multiset" "HOL-Library.Product_Lexorder"
begin

section \<open>Rectangle tree (rectangle\_tree\_impl.hpp)\<close>

text \<open>
  A point is an \<open>arma::vec\<close>: one coordinate per row. Coordinates are doubles in the
  source and reals here; the operations below only compare and copy them.
\<close>

type_synonym point = "real list"

subsection \<open>The bound\<close>

text \<open>
  Modelled from the spec: the bound class (\<open>HRectBound\<close>) is declared outside the
  files at hand. The spec describes it as a region summary holding a minimum and a
  maximum per dimension, with union-with-point (\<open>|=\<close>) and containment. A dimension
  that has seen no point yet is the empty range \<open>None\<close>.
\<close>

type_synonym Range = "(real \<times> real) option"

type_synonym HRectBound = "Range list"

definition HRectBound_init :: "nat \<Rightarrow> HRectBound" where
  "HRectBound_init d = replicate d None"

definition Dim :: "HRectBound \<Rightarrow> nat" where
  "Dim b = length b"

fun Range_include :: "Range \<Rightarrow> real \<Rightarrow> Range" where
  "Range_include None x = Some (x, x)"
| "Range_include (Some (lo, hi)) x = Some (min lo x, max hi x)"

fun Range_contains :: "Range \<Rightarrow> real \<Rightarrow> bool" where
  "Range_contains None x = False"
| "Range_contains (Some (lo, hi)) x = (lo \<le> x \<and> x \<le> hi)"

text \<open>\<open>bound |= point\<close>\<close>

definition bound_union :: "HRectBound \<Rightarrow> point \<Rightarrow> HRectBound" where
  "bound_union b p = map2 Range_include b p"

definition Contains :: "HRectBound \<Rightarrow> point \<Rightarrow> bool" where
  "Contains b p = list_all2 Range_contains b p"

subsection \<open>Nodes\<close>

text \<open>
  The data members of a node. \<open>size_t\<close> members are naturals; the one place where
  unsigned wrap-around decides the outcome (\<open>numChildren - 1\<close> in \<open>End\<close>) writes it
  out. The member \<open>begin\<close> is spelled \<open>begin'\<close>. The \<open>children\<close> vector has
  \<open>maxNumChildren + 1\<close> slots of which the first \<open>numChildren\<close> hold nodes and the
  others are null: the model keeps the list of the first \<open>numChildren\<close> slots, so
  \<open>numChildren\<close> is its length. The \<open>parent\<close> pointer is not a field: a node is
  addressed by the path of child indices leading to it from the root. \<open>dataset\<close> is
  the node's own matrix, one list entry per column. The statistic is a template
  parameter that no operation below reads.
\<close>

record node_fields =
  maxNumChildren :: nat
  minNumChildren :: nat
  begin' :: nat
  count :: nat
  maxLeafSize :: nat
  minLeafSize :: nat
  bound :: HRectBound
  parentDistance :: real
  dataset :: "point list"

datatype RectangleTree = Node (members: node_fields) (children: "RectangleTree list")

datatype error = AssertionFailed | OutOfBounds | NullPointer

definition numChildren :: "RectangleTree \<Rightarrow> nat" where
  "numChildren t = length (children t)"

definition IsLeaf :: "RectangleTree \<Rightarrow> bool" where
  "IsLeaf t = (numChildren t = 0)"

text \<open>\<open>bound.Diameter()\<close> belongs to the bound class and is a parameter here.\<close>

definition FurthestPointDistance :: "(HRectBound \<Rightarrow> real) \<Rightarrow> RectangleTree \<Rightarrow> real" where
  "FurthestPointDistance Diameter t =
     (if \<not> IsLeaf t then 0.0 else 0.5 * Diameter (bound (members t)))"

definition NumPoints :: "RectangleTree \<Rightarrow> nat" where
  "NumPoints t = (if numChildren t \<noteq> 0 then 0 else count (members t))"

lemma size_child_mem: "c \<in> set (children t) \<Longrightarrow> size c < size t"
proof (cases t)
  case (Node f cs)
  assume "c \<in> set (children t)"
  with Node have "c \<in> set cs" by simp
  then have "size c \<le> size_list size cs"
    by (rule size_list_estimation') simp
  with Node show ?thesis by simp
qed

lemma size_child: "i < length (children t) \<Longrightarrow> size (children t ! i) < size t"
  by (rule size_child_mem) simp

text \<open>
  \<open>End\<close>: \<open>if (numChildren) return begin + count; return children[numChildren-1]->End();\<close>
  The index \<open>numChildren - 1\<close> is computed on \<open>size_t\<close> (64 bits). Indexing the
  vector at or beyond its \<open>maxNumChildren + 1\<close> slots is the result \<open>OutOfBounds\<close>,
  following a null slot is \<open>NullPointer\<close>.
\<close>

definition size_t_dec :: "nat \<Rightarrow> nat" where
  "size_t_dec n = (n + 2 ^ 64 - 1) mod 2 ^ 64"

definition children_size :: "RectangleTree \<Rightarrow> nat" where
  "children_size t = (maxNumChildren (members t) + 1) mod 2 ^ 64"

function End :: "RectangleTree \<Rightarrow> error + nat" where
  "End t =
     (if numChildren t \<noteq> 0 then Inr ((begin' (members t) + count (members t)) mod 2 ^ 64)
      else if size_t_dec (numChildren t) < children_size t
        then (if size_t_dec (numChildren t) < length (children t)
              then End (children t ! size_t_dec (numChildren t))
              else Inl NullPointer)
        else Inl OutOfBounds)"
  by pat_completeness auto
termination
  by (relation "measure size") (auto simp: size_child)

declare End.simps [simp del]

subsection \<open>Splitting\<close>

text \<open>
  A node of the tree is addressed by the path of child indices from the root.
\<close>

fun node_at :: "RectangleTree \<Rightarrow> nat list \<Rightarrow> RectangleTree option" where
  "node_at t [] = Some t"
| "node_at t (i # path) =
     (if i < length (children t) then node_at (children t ! i) path else None)"

text \<open>
  \<open>SplitNode\<close> runs on the node \<open>this\<close> of the tree \<open>tree\<close>. The split policy
  \<open>SplitType::SplitLeafNode(this)\<close> is a template parameter: it receives the node and,
  through the parent pointers, the whole tree, and its result is the tree it leaves
  behind. A failed \<open>assert\<close> aborts the run: the result \<open>AssertionFailed\<close>.
\<close>

type_synonym SplitType = "RectangleTree \<Rightarrow> nat list \<Rightarrow> error + RectangleTree"

definition SplitNode :: "SplitType \<Rightarrow> RectangleTree \<Rightarrow> nat list \<Rightarrow> error + RectangleTree" where
  "SplitNode SplitLeafNode tree this =
     (case node_at tree this of
        None \<Rightarrow> Inl NullPointer
      | Some n \<Rightarrow>
          if \<not> (numChildren n = 0) then Inl AssertionFailed
          else if count (members n) < maxLeafSize (members n) then Inr tree
          else SplitLeafNode tree this)"

subsection \<open>Insertion\<close>

text \<open>
  The descent heuristic \<open>DescentType::EvalNode(bound, point)\<close> is a template
  parameter. The loop of \<open>InsertPoint\<close> keeps the first child of least score.
\<close>

type_synonym DescentType = "HRectBound \<Rightarrow> point \<Rightarrow> real"

fun bestIndex_loop ::
  "DescentType \<Rightarrow> RectangleTree list \<Rightarrow> point \<Rightarrow> nat list \<Rightarrow> real \<times> nat \<Rightarrow> real \<times> nat" where
  "bestIndex_loop EvalNode cs p [] (minScore, bestIndex) = (minScore, bestIndex)"
| "bestIndex_loop EvalNode cs p (i # is) (minScore, bestIndex) =
     (let score = EvalNode (bound (members (cs ! i))) p
      in if score < minScore then bestIndex_loop EvalNode cs p is (score, i)
         else bestIndex_loop EvalNode cs p is (minScore, bestIndex))"

definition chooseChild :: "DescentType \<Rightarrow> RectangleTree list \<Rightarrow> point \<Rightarrow> nat" where
  "chooseChild EvalNode cs p =
     snd (bestIndex_loop EvalNode cs p [1 ..< length cs] (EvalNode (bound (members (cs ! 0))) p, 0))"

lemma bestIndex_loop_bound:
  "b < n \<Longrightarrow> \<forall>i \<in> set is. i < n \<Longrightarrow> snd (bestIndex_loop EvalNode cs p is (m, b)) < n"
  by (induction "is" arbitrary: m b) (auto simp: Let_def)

lemma chooseChild_less: "cs \<noteq> [] \<Longrightarrow> chooseChild EvalNode cs p < length cs"
  unfolding chooseChild_def by (rule bestIndex_loop_bound) auto

text \<open>
  \<open>InsertPoint\<close> first expands the bound of the node it runs on. In a leaf it stores
  the point in column \<open>count\<close> of the leaf's matrix, increments \<open>count\<close> and calls
  \<open>SplitNode\<close>; otherwise it recurses into the chosen child, and that call is its last
  statement. So one call on the root expands the bounds along the descent path,
  appends the point to the leaf it reaches and ends with \<open>SplitNode\<close> on that leaf.
  \<open>InsertPoint_descend\<close> is the recursion up to the append and returns the updated
  tree with the path of the leaf; \<open>InsertPoint\<close> then runs \<open>SplitNode\<close> there, on the
  whole tree, which the split policy can reach through the parent pointers.
  Writing a column beyond the matrix is the result \<open>OutOfBounds\<close>.
\<close>

function InsertPoint_descend ::
  "DescentType \<Rightarrow> RectangleTree \<Rightarrow> point \<Rightarrow> error + (RectangleTree \<times> nat list)" where
  "InsertPoint_descend EvalNode t p =
     (if numChildren t = 0 then
        (if count (members t) < length (dataset (members t))
         then Inr (Node ((members t)\<lparr>bound := bound_union (bound (members t)) p,
                                     dataset := (dataset (members t))[count (members t) := p],
                                     count := count (members t) + 1\<rparr>) (children t), [])
         else Inl OutOfBounds)
      else
        (case InsertPoint_descend EvalNode (children t ! chooseChild EvalNode (children t) p) p of
           Inl e \<Rightarrow> Inl e
         | Inr (c, path) \<Rightarrow>
             Inr (Node ((members t)\<lparr>bound := bound_union (bound (members t)) p\<rparr>)
                       ((children t)[chooseChild EvalNode (children t) p := c]),
                  chooseChild EvalNode (children t) p # path)))"
  by pat_completeness auto
termination
  by (relation "measure (\<lambda>(EvalNode, t, p). size t)")
     (auto simp: numChildren_def intro!: size_child chooseChild_less)

declare InsertPoint_descend.simps [simp del]

definition InsertPoint ::
  "SplitType \<Rightarrow> DescentType \<Rightarrow> RectangleTree \<Rightarrow> point \<Rightarrow> error + RectangleTree" where
  "InsertPoint SplitLeafNode EvalNode tree p =
     (case InsertPoint_descend EvalNode tree p of
        Inl e \<Rightarrow> Inl e
      | Inr (tree', leaf) \<Rightarrow> SplitNode SplitLeafNode tree' leaf)"

subsection \<open>The constructor\<close>

text \<open>
  The matrix \<open>data\<close> has \<open>n_rows\<close> rows and one point per column. The constructor
  makes an empty leaf and inserts columns in order, in the loop
  \<open>for (int i = firstDataIndex; i < data.n_cols; i++)\<close>. The counter is a 32-bit
  \<open>int\<close>: \<open>int32\<close> is the value an integer has after conversion to that type
  (wrap-around). The comparison with \<open>n_cols\<close> is unsigned, so a negative start is
  beyond every column (the matrix has fewer than \<open>2^31\<close> columns) and the loop does
  not run; otherwise it runs over the columns from the start on.
  The defaults of the source are \<open>maxLeafSize = 20\<close>, \<open>minLeafSize = 6\<close>,
  \<open>maxNumChildren = 4\<close>, \<open>minNumChildren = 0\<close>, \<open>firstDataIndex = 0\<close>.
\<close>

definition int32 :: "int \<Rightarrow> int" where
  "int32 x = (x + 2 ^ 31) mod 2 ^ 32 - 2 ^ 31"

definition loop_columns :: "nat \<Rightarrow> point list \<Rightarrow> point list" where
  "loop_columns firstDataIndex cs =
     (if int32 (int firstDataIndex) < 0 then [] else drop (nat (int32 (int firstDataIndex))) cs)"

record MatType =
  n_rows :: nat
  cols :: "point list"

definition n_cols :: "MatType \<Rightarrow> nat" where
  "n_cols data = length (cols data)"

definition emptyNode :: "nat \<Rightarrow> nat \<Rightarrow> nat \<Rightarrow> nat \<Rightarrow> nat \<Rightarrow> RectangleTree" where
  "emptyNode rows maxLeafSize' minLeafSize' maxNumChildren' minNumChildren' =
     Node \<lparr>maxNumChildren = maxNumChildren',
           minNumChildren = minNumChildren',
           begin' = 0,
           count = 0,
           maxLeafSize = maxLeafSize',
           minLeafSize = minLeafSize',
           bound = HRectBound_init rows,
           parentDistance = 0,
           dataset = replicate (maxLeafSize' + 1) (replicate rows 0)\<rparr> []"

fun InsertPoints ::
  "SplitType \<Rightarrow> DescentType \<Rightarrow> RectangleTree \<Rightarrow> point list \<Rightarrow> error + RectangleTree" where
  "InsertPoints SplitLeafNode EvalNode tree [] = Inr tree"
| "InsertPoints SplitLeafNode EvalNode tree (p # ps) =
     (case InsertPoint SplitLeafNode EvalNode tree p of
        Inl e \<Rightarrow> Inl e
      | Inr tree' \<Rightarrow> InsertPoints SplitLeafNode EvalNode tree' ps)"

definition RectangleTree_new ::
  "SplitType \<Rightarrow> DescentType \<Rightarrow> MatType \<Rightarrow> nat \<Rightarrow> nat \<Rightarrow> nat \<Rightarrow> nat \<Rightarrow> nat \<Rightarrow> error + RectangleTree" where
  "RectangleTree_new SplitLeafNode EvalNode data maxLeafSize' minLeafSize' maxNumChildren'
       minNumChildren' firstDataIndex =
     InsertPoints SplitLeafNode EvalNode
       (emptyNode (n_rows data) maxLeafSize' minLeafSize' maxNumChildren' minNumChildren')
       (loop_columns firstDataIndex (cols data))"

subsection \<open>Example policies and trees\<close>

text \<open>
  The template parameters need values where a theorem is applied to a concrete tree.
  \<open>keepLeaf\<close> is the split policy that leaves the tree as it is;
  \<open>EvalNode_enlargement\<close> scores a child by how far its bound must grow, summed over
  the dimensions, to take the point in (the spec's example of a descent heuristic);
  \<open>Diameter_euclid\<close> is the length of the diagonal of a bound.
\<close>

definition keepLeaf :: SplitType where
  "keepLeaf tree this = Inr tree"

fun Range_enlargement :: "Range \<Rightarrow> real \<Rightarrow> real" where
  "Range_enlargement None x = 0"
| "Range_enlargement (Some (lo, hi)) x = max 0 (lo - x) + max 0 (x - hi)"

definition EvalNode_enlargement :: DescentType where
  "EvalNode_enlargement b p = sum_list (map2 Range_enlargement b p)"

fun Range_width :: "Range \<Rightarrow> real" where
  "Range_width None = 0"
| "Range_width (Some (lo, hi)) = hi - lo"

definition Diameter_euclid :: "HRectBound \<Rightarrow> real" where
  "Diameter_euclid b = sqrt (sum_list (map (\<lambda>r. (Range_width r)\<^sup>2) b))"

text \<open>
  A one-dimensional leaf holding the given points in its first columns, with the
  constructor's default sizes, and an internal node over two such leaves.
\<close>

definition leaf1 :: "real \<Rightarrow> real \<Rightarrow> point list \<Rightarrow> RectangleTree" where
  "leaf1 lo hi ps =
     Node \<lparr>maxNumChildren = 4, minNumChildren = 0, begin' = 0, count = length ps,
           maxLeafSize = 20, minLeafSize = 6, bound = [Some (lo, hi)], parentDistance = 0,
           dataset = ps @ replicate (21 - length ps) [0]\<rparr> []"

definition inner1 :: "real \<Rightarrow> real \<Rightarrow> RectangleTree list \<Rightarrow> RectangleTree" where
  "inner1 lo hi cs =
     Node \<lparr>maxNumChildren = 4, minNumChildren = 0, begin' = 0, count = 0,
           maxLeafSize = 20, minLeafSize = 6, bound = [Some (lo, hi)], parentDistance = 0,
           dataset = replicate 21 [0]\<rparr> cs"

definition exampleTree :: RectangleTree where
  "exampleTree = inner1 0 9 [leaf1 0 2 [[0], [2]], leaf1 7 9 [[7], [9]]]"

section \<open>Properties of the rectangle tree\<close>

text \<open>
  C6: for every leaf node whose point count is strictly less than \<open>maxLeafSize\<close>,
  \<open>SplitNode\<close> is a no-op: it returns without any structural change, the node and the
  tree are as before, and so a second call does the same (idempotence).
\<close>

theorem SplitNode_noop_on_non_full_leaf:
  assumes "node_at tree this = Some n"
    and "numChildren n = 0"
    and "count (members n) < maxLeafSize (members n)"
  shows "SplitNode SplitLeafNode tree this = Inr tree
    \<and> (case SplitNode SplitLeafNode tree this of
         Inl e \<Rightarrow> False
       | Inr tree' \<Rightarrow> node_at tree' this = Some n
           \<and> SplitNode SplitLeafNode tree' this = SplitNode SplitLeafNode tree this)"
  using assms by (simp add: SplitNode_def)

theorem SplitNode_noop_on_non_full_leaf_witness:
  "node_at exampleTree [1] = Some (leaf1 7 9 [[7], [9]])
   \<and> numChildren (leaf1 7 9 [[7], [9]]) = 0
   \<and> count (members (leaf1 7 9 [[7], [9]])) < maxLeafSize (members (leaf1 7 9 [[7], [9]]))
   \<and> SplitNode keepLeaf exampleTree [1] = Inr exampleTree"
proof -
  have h1: "node_at exampleTree [1] = Some (leaf1 7 9 [[7], [9]])"
    by (simp add: exampleTree_def inner1_def)
  have h2: "numChildren (leaf1 7 9 [[7], [9]]) = 0"
    by (simp add: numChildren_def leaf1_def)
  have h3: "count (members (leaf1 7 9 [[7], [9]])) < maxLeafSize (members (leaf1 7 9 [[7], [9]]))"
    by (simp add: leaf1_def)
  from SplitNode_noop_on_non_full_leaf [OF h1 h2 h3, of keepLeaf] h1 h2 h3
  show ?thesis by simp
qed

text \<open>
  C7: \<open>SplitNode\<close> on a node that has children fails its assertion
  \<open>numChildren == 0\<close> and the run aborts; on a leaf the assertion holds, and the call
  either returns at once (leaf not full) or hands the leaf to the split policy.
\<close>

theorem SplitNode_asserts_leaf:
  assumes "node_at tree this = Some n"
  shows "(numChildren n \<noteq> 0 \<longrightarrow> SplitNode SplitLeafNode tree this = Inl AssertionFailed)
    \<and> (numChildren n = 0 \<longrightarrow>
         SplitNode SplitLeafNode tree this =
           (if count (members n) < maxLeafSize (members n) then Inr tree
            else SplitLeafNode tree this))"
  using assms by (simp add: SplitNode_def)

theorem SplitNode_asserts_leaf_witness:
  "node_at exampleTree [] = Some exampleTree
   \<and> numChildren exampleTree \<noteq> 0
   \<and> SplitNode keepLeaf exampleTree [] = Inl AssertionFailed"
proof -
  have h1: "node_at exampleTree [] = Some exampleTree" by simp
  have h2: "numChildren exampleTree \<noteq> 0"
    by (simp add: numChildren_def exampleTree_def inner1_def)
  from SplitNode_asserts_leaf [OF h1, of keepLeaf] h1 h2
  show ?thesis by simp
qed

text \<open>
  C9: \<open>End\<close> returns \<open>begin + count\<close> only for a node that has at least one child.
  On a leaf (\<open>numChildren = 0\<close>) it indexes the vector of children at
  \<open>numChildren - 1\<close>, which lies outside the vector whatever its size: the test is
  the opposite of the one in \<open>NumPoints\<close> and \<open>IsLeaf\<close>.
\<close>

theorem End_out_of_bounds_on_leaf:
  "End t =
     (if IsLeaf t then Inl OutOfBounds
      else Inr ((begin' (members t) + count (members t)) mod 2 ^ 64))
   \<and> (NumPoints t = (if IsLeaf t then count (members t) else 0))"
proof -
  have "\<not> size_t_dec 0 < children_size t"
    by (simp add: size_t_dec_def children_size_def not_less)
  then show ?thesis
    by (simp add: End.simps [of t] IsLeaf_def NumPoints_def)
qed

theorem End_out_of_bounds_on_leaf_witness:
  "End (leaf1 7 9 [[7], [9]]) = Inl OutOfBounds \<and> End exampleTree = Inr 0"
  using End_out_of_bounds_on_leaf [of "leaf1 7 9 [[7], [9]]"]
    End_out_of_bounds_on_leaf [of exampleTree]
  by (simp add: IsLeaf_def numChildren_def leaf1_def exampleTree_def inner1_def)

text \<open>
  C10: \<open>FurthestPointDistance\<close> is exactly 0 for every node that is not a leaf and
  half the diameter of the bound for every leaf.
\<close>

theorem FurthestPointDistance_cases:
  "(numChildren t \<noteq> 0 \<longrightarrow> FurthestPointDistance Diameter t = 0)
   \<and> (numChildren t = 0 \<longrightarrow> FurthestPointDistance Diameter t = 0.5 * Diameter (bound (members t)))"
  by (simp add: FurthestPointDistance_def IsLeaf_def)

theorem FurthestPointDistance_cases_witness:
  "FurthestPointDistance Diameter_euclid exampleTree = 0
   \<and> FurthestPointDistance Diameter_euclid (leaf1 7 9 [[7], [9]]) = 1"
proof -
  have h1: "numChildren exampleTree \<noteq> 0"
    by (simp add: numChildren_def exampleTree_def inner1_def)
  have h2: "numChildren (leaf1 7 9 [[7], [9]]) = 0"
    by (simp add: numChildren_def leaf1_def)
  from FurthestPointDistance_cases [of exampleTree Diameter_euclid]
    FurthestPointDistance_cases [of "leaf1 7 9 [[7], [9]]" Diameter_euclid] h1 h2
  show ?thesis by (simp add: leaf1_def Diameter_euclid_def)
qed

text \<open>
  C5 (as the code has it): the constructor reports no error on a dataset with zero
  points. Its loop runs zero times and the result is the empty leaf it started from:
  no children, \<open>count = 0\<close>, and the empty bound of the data's dimension.
\<close>

theorem RectangleTree_new_empty_dataset:
  assumes "n_cols data = 0"
  shows "RectangleTree_new SplitLeafNode EvalNode data maxLeafSize' minLeafSize'
           maxNumChildren' minNumChildren' firstDataIndex
         = Inr (emptyNode (n_rows data) maxLeafSize' minLeafSize' maxNumChildren' minNumChildren')
    \<and> IsLeaf (emptyNode (n_rows data) maxLeafSize' minLeafSize' maxNumChildren' minNumChildren')
    \<and> NumPoints (emptyNode (n_rows data) maxLeafSize' minLeafSize' maxNumChildren' minNumChildren') = 0"
  using assms
  by (simp add: RectangleTree_new_def loop_columns_def n_cols_def emptyNode_def IsLeaf_def
      NumPoints_def numChildren_def)

theorem RectangleTree_new_empty_dataset_witness:
  "n_cols \<lparr>n_rows = 3, cols = []\<rparr> = 0
   \<and> RectangleTree_new keepLeaf EvalNode_enlargement \<lparr>n_rows = 3, cols = []\<rparr> 20 6 4 0 0
       = Inr (emptyNode 3 20 6 4 0)"
proof -
  have h: "n_cols \<lparr>n_rows = 3, cols = []\<rparr> = 0" by (simp add: n_cols_def)
  from RectangleTree_new_empty_dataset [OF h, of keepLeaf EvalNode_enlargement 20 6 4 0 0] h
  show ?thesis by simp
qed

text \<open>
  The claim as the spec states it (an error is reported and no tree is returned) fails
  for the one-dimensional dataset with no columns: the constructor returns a tree.
\<close>

theorem RectangleTree_new_empty_dataset_counterexample:
  "\<not> isl (RectangleTree_new keepLeaf EvalNode_enlargement \<lparr>n_rows = 1, cols = []\<rparr> 20 6 4 0 0)"
  by (simp add: RectangleTree_new_def loop_columns_def)

subsection \<open>The bound invariant of insertion\<close>

text \<open>
  The points stored in the subtree of a node are the ones \<open>NumDescendants\<close> counts:
  the first \<open>count\<close> columns of a leaf's matrix, and for a node with children the
  points of its children.
\<close>

fun NumDescendants :: "RectangleTree \<Rightarrow> nat" where
  "NumDescendants (Node f cs) =
     (if length cs = 0 then count f else sum_list (map NumDescendants cs))"

fun subtree_points :: "RectangleTree \<Rightarrow> point list" where
  "subtree_points (Node f cs) =
     (if cs = [] then take (count f) (dataset f) else concat (map subtree_points cs))"

text \<open>
  \<open>bounds_ok\<close>: the bound of every node contains every point stored in the node's
  subtree. \<open>dim_ok d\<close>: every bound has \<open>d\<close> dimensions.
  \<open>path_bounds_contain t path p\<close>: the bound of every node on the path, from \<open>t\<close>
  down to the node the path ends in, contains \<open>p\<close>.
\<close>

fun bounds_ok :: "RectangleTree \<Rightarrow> bool" where
  "bounds_ok (Node f cs) =
     ((\<forall>p \<in> set (subtree_points (Node f cs)). Contains (bound f) p)
      \<and> (\<forall>c \<in> set cs. bounds_ok c))"

fun dim_ok :: "nat \<Rightarrow> RectangleTree \<Rightarrow> bool" where
  "dim_ok d (Node f cs) = (Dim (bound f) = d \<and> (\<forall>c \<in> set cs. dim_ok d c))"

fun path_bounds_contain :: "RectangleTree \<Rightarrow> nat list \<Rightarrow> point \<Rightarrow> bool" where
  "path_bounds_contain t [] p = Contains (bound (members t)) p"
| "path_bounds_contain t (i # path) p =
     (Contains (bound (members t)) p \<and> i < length (children t)
      \<and> path_bounds_contain (children t ! i) path p)"

lemma Range_contains_include_self: "Range_contains (Range_include r x) x"
  by (cases r) auto

lemma Range_contains_include_mono: "Range_contains r y \<Longrightarrow> Range_contains (Range_include r x) y"
  by (cases r) (auto simp: min_le_iff_disj le_max_iff_disj)

lemma Contains_union_self: "Dim b = length p \<Longrightarrow> Contains (bound_union b p) p"
  unfolding Contains_def bound_union_def Dim_def
  by (induction b p rule: list_induct2) (auto simp: Range_contains_include_self)

lemma Contains_union_mono:
  "Dim b = length p \<Longrightarrow> Contains b q \<Longrightarrow> Contains (bound_union b p) q"
  unfolding Contains_def bound_union_def Dim_def
  by (auto simp: list_all2_conv_all_nth Range_contains_include_mono)

lemma Dim_union: "Dim b = length p \<Longrightarrow> Dim (bound_union b p) = Dim b"
  by (simp add: Dim_def bound_union_def)

lemma subtree_points_update:
  assumes "i < length cs" "set (subtree_points c) = insert p (set (subtree_points (cs ! i)))"
  shows "set (concat (map subtree_points (cs[i := c])))
         = insert p (set (concat (map subtree_points cs)))"
proof -
  have "cs = take i cs @ cs ! i # drop (Suc i) cs"
    using assms(1) by (simp add: id_take_nth_drop)
  then have "set (concat (map subtree_points cs)) =
     set (concat (map subtree_points (take i cs))) \<union> set (subtree_points (cs ! i))
     \<union> set (concat (map subtree_points (drop (Suc i) cs)))"
    by (metis concat.simps(2) concat_append list.simps(9) map_append set_append sup_assoc)
  moreover have "set (concat (map subtree_points (cs[i := c]))) =
     set (concat (map subtree_points (take i cs))) \<union> set (subtree_points c)
     \<union> set (concat (map subtree_points (drop (Suc i) cs)))"
    using assms(1) by (simp add: upd_conv_take_nth_drop Un_assoc)
  ultimately show ?thesis using assms(2) by auto
qed

lemma descend_inv:
  "dim_ok d t \<Longrightarrow> bounds_ok t \<Longrightarrow> length p = d \<Longrightarrow>
   InsertPoint_descend EvalNode t p = Inr (t', path) \<Longrightarrow>
   dim_ok d t' \<and> bounds_ok t' \<and> path_bounds_contain t' path p
   \<and> set (subtree_points t') = insert p (set (subtree_points t))"
proof (induction EvalNode t p arbitrary: t' path rule: InsertPoint_descend.induct)
  case (1 EvalNode t p)
  obtain f cs where t: "t = Node f cs" by (cases t)
  from "1.prems" t have dimf: "Dim (bound f) = length p" by simp
  show ?case
  proof (cases "numChildren t = 0")
    case True
    with t have cs: "cs = []" by (simp add: numChildren_def)
    from "1.prems"(4) True t cs have lt: "count f < length (dataset f)"
      and t': "t' = Node (f\<lparr>bound := bound_union (bound f) p,
                   dataset := (dataset f)[count f := p], count := count f + 1\<rparr>) []"
      and path: "path = []"
      by (subst (asm) InsertPoint_descend.simps, simp add: numChildren_def split: if_splits)+
    have pts: "take (count f + 1) ((dataset f)[count f := p]) = take (count f) (dataset f) @ [p]"
      using lt by (simp add: take_Suc_conv_app_nth)
    from "1.prems" t cs have old: "\<forall>q \<in> set (take (count f) (dataset f)). Contains (bound f) q"
      by simp
    show ?thesis
      using t t' cs path pts old dimf "1.prems"(1)
      by (auto simp: Contains_union_self Contains_union_mono Dim_union)
  next
    case False
    define i where "i = chooseChild EvalNode (children t) p"
    from False t have csne: "cs \<noteq> []" by (auto simp: numChildren_def)
    then have i: "i < length cs" using t by (simp add: i_def chooseChild_less)
    from "1.prems"(4) False obtain c path' where
      rec: "InsertPoint_descend EvalNode (children t ! i) p = Inr (c, path')"
      and t': "t' = Node (f\<lparr>bound := bound_union (bound f) p\<rparr>) (cs[i := c])"
      and path: "path = i # path'"
      by (subst (asm) InsertPoint_descend.simps)
        (use t in \<open>auto simp: i_def split: sum.splits\<close>)
    from "1.prems" t i have sub_ok: "dim_ok d (children t ! i)" "bounds_ok (children t ! i)"
      by auto
    have ih: "dim_ok d c" "bounds_ok c" "path_bounds_contain c path' p"
      "set (subtree_points c) = insert p (set (subtree_points (cs ! i)))"
      using "1.IH" [of c path'] False sub_ok "1.prems"(3) rec t
      by (simp_all add: i_def)
    have pts: "set (concat (map subtree_points (cs[i := c])))
         = insert p (set (concat (map subtree_points cs)))"
      using i ih(4) by (rule subtree_points_update)
    have ne: "cs[i := c] \<noteq> []" using csne by simp
    have sub: "set (cs[i := c]) \<subseteq> insert c (set cs)" by (rule set_update_subset_insert)
    from "1.prems" t csne have old: "\<forall>q \<in> set (concat (map subtree_points cs)). Contains (bound f) q"
      and oldc: "\<forall>c \<in> set cs. bounds_ok c \<and> dim_ok d c"
      by auto
    have "dim_ok d t'" using t' sub oldc ih(1) dimf "1.prems"(1) t
      by (auto simp: Dim_union)
    moreover have "bounds_ok t'" using t' sub oldc ih(2) dimf pts old ne
      by (auto simp: Contains_union_self Contains_union_mono)
    moreover have "path_bounds_contain t' path p" using t' path i ih(3) dimf
      by (simp add: Contains_union_self)
    moreover have "set (subtree_points t') = insert p (set (subtree_points t))"
      using t t' pts ne csne by simp
    ultimately show ?thesis by blast
  qed
qed


lemma InsertPoint_inv:
  assumes split: "\<forall>tr leaf tr'. dim_ok d tr \<and> bounds_ok tr \<and> SplitLeafNode tr leaf = Inr tr'
             \<longrightarrow> dim_ok d tr' \<and> bounds_ok tr'"
    and "dim_ok d tree" "bounds_ok tree" "length p = d"
    and ins: "InsertPoint SplitLeafNode EvalNode tree p = Inr tree'"
  shows "dim_ok d tree' \<and> bounds_ok tree'"
proof -
  from ins obtain t1 leaf where
    desc: "InsertPoint_descend EvalNode tree p = Inr (t1, leaf)"
    and sp: "SplitNode SplitLeafNode t1 leaf = Inr tree'"
    by (auto simp: InsertPoint_def split: sum.splits)
  from descend_inv [OF assms(2-4) desc] have t1: "dim_ok d t1" "bounds_ok t1" by simp_all
  from sp have "tree' = t1 \<or> SplitLeafNode t1 leaf = Inr tree'"
    by (auto simp: SplitNode_def split: option.splits if_splits)
  with t1 split show ?thesis by blast
qed

lemma InsertPoints_inv:
  assumes split: "\<forall>tr leaf tr'. dim_ok d tr \<and> bounds_ok tr \<and> SplitLeafNode tr leaf = Inr tr'
             \<longrightarrow> dim_ok d tr' \<and> bounds_ok tr'"
  shows "dim_ok d tree \<Longrightarrow> bounds_ok tree \<Longrightarrow> \<forall>p \<in> set ps. length p = d \<Longrightarrow>
    InsertPoints SplitLeafNode EvalNode tree ps = Inr tree' \<Longrightarrow> dim_ok d tree' \<and> bounds_ok tree'"
proof (induction ps arbitrary: tree)
  case Nil
  then show ?case by simp
next
  case (Cons p ps)
  from Cons.prems(4) obtain t1 where
    one: "InsertPoint SplitLeafNode EvalNode tree p = Inr t1"
    and rest: "InsertPoints SplitLeafNode EvalNode t1 ps = Inr tree'"
    by (auto split: sum.splits)
  from Cons.prems(3) have lp: "length p = d" by simp
  from InsertPoint_inv [OF split Cons.prems(1,2) lp one]
  have "dim_ok d t1" "bounds_ok t1" by simp_all
  from Cons.IH [OF this _ rest] Cons.prems(3) show ?case by simp
qed

lemma emptyNode_inv:
  "dim_ok d (emptyNode d a b c e) \<and> bounds_ok (emptyNode d a b c e)"
  by (simp add: emptyNode_def Dim_def HRectBound_init_def)

text \<open>
  C3: after any sequence of \<open>InsertPoint\<close> calls, on the empty leaf the constructor
  starts from or on any tree whose bounds contain their points, the bound of every
  node contains every point stored in the node's subtree. \<open>InsertPoint\<close> keeps
  this by expanding the bound of every node on its descent path to take the new point
  in, before it descends or appends; the points of the tree afterwards are the former
  ones and the new one. The split policy is a parameter and is assumed to keep the
  invariant, as the spec demands of every split strategy. Points have as many
  coordinates as the bounds have dimensions.
\<close>

theorem InsertPoint_bound_invariant:
  assumes "\<forall>tr leaf tr'. dim_ok d tr \<and> bounds_ok tr \<and> SplitLeafNode tr leaf = Inr tr'
             \<longrightarrow> dim_ok d tr' \<and> bounds_ok tr'"
  shows "(\<forall>tree ps tree'. dim_ok d tree \<and> bounds_ok tree \<and> (\<forall>p \<in> set ps. length p = d)
            \<and> InsertPoints SplitLeafNode EvalNode tree ps = Inr tree'
          \<longrightarrow> dim_ok d tree' \<and> bounds_ok tree')
    \<and> (\<forall>tree p t1 leaf. dim_ok d tree \<and> bounds_ok tree \<and> length p = d
            \<and> InsertPoint_descend EvalNode tree p = Inr (t1, leaf)
          \<longrightarrow> path_bounds_contain t1 leaf p \<and> bounds_ok t1
              \<and> set (subtree_points t1) = insert p (set (subtree_points tree)))
    \<and> dim_ok d (emptyNode d maxLeafSize' minLeafSize' maxNumChildren' minNumChildren')
    \<and> bounds_ok (emptyNode d maxLeafSize' minLeafSize' maxNumChildren' minNumChildren')"
  using InsertPoints_inv [OF assms] descend_inv emptyNode_inv by blast

text \<open>The example tree after inserting the points 3 and 8.\<close>

definition exampleTree2 :: RectangleTree where
  "exampleTree2 = inner1 0 9 [leaf1 0 3 [[0], [2], [3]], leaf1 7 9 [[7], [9], [8]]]"

lemma exampleTree_inv: "dim_ok 1 exampleTree \<and> bounds_ok exampleTree"
  by (simp add: exampleTree_def inner1_def leaf1_def Dim_def Contains_def)

lemma InsertPoints_example:
  "InsertPoints keepLeaf EvalNode_enlargement exampleTree [[3], [8]] = Inr exampleTree2"
  by (simp add: InsertPoint_def InsertPoint_descend.simps SplitNode_def keepLeaf_def
      chooseChild_def EvalNode_enlargement_def exampleTree_def exampleTree2_def inner1_def
      leaf1_def numChildren_def bound_union_def upt_rec numeral_eq_Suc)

theorem InsertPoint_bound_invariant_witness:
  "InsertPoints keepLeaf EvalNode_enlargement exampleTree [[3], [8]] = Inr exampleTree2
   \<and> bounds_ok exampleTree \<and> bounds_ok exampleTree2"
proof -
  have split: "\<forall>tr leaf tr'. dim_ok 1 tr \<and> bounds_ok tr \<and> keepLeaf tr leaf = Inr tr'
             \<longrightarrow> dim_ok 1 tr' \<and> bounds_ok tr'"
    by (simp add: keepLeaf_def)
  have len: "\<forall>p \<in> set [[3], [8::real]]. length p = 1" by simp
  from InsertPoint_bound_invariant [OF split, of EvalNode_enlargement]
    exampleTree_inv len InsertPoints_example
  show ?thesis by blast
qed

section \<open>Dual-tree utilities (nbr\_utils.h)\<close>

subsection \<open>Default number of grains\<close>

text \<open>
  Modelled from the spec: the parameter registry (\<open>fx_param_int\<close>) is declared outside
  the files at hand. A module holds the integer parameters that were supplied, by
  name; \<open>fx_param_int module name def\<close> is the supplied value, or \<open>def\<close> when the
  parameter was not supplied.
\<close>

type_synonym datanode = "string \<rightharpoonup> int"

definition fx_param_int :: "datanode \<Rightarrow> string \<Rightarrow> int \<Rightarrow> int" where
  "fx_param_int m name def = (case m name of None \<Rightarrow> def | Some v \<Rightarrow> v)"

text \<open>
  The number of grains \<open>ThreadedDualTreeSolver::Solve\<close> hands to
  \<open>SimpleWorkQueue::Init\<close>, and the one \<open>SetupMaster_\<close> of the distributed runner
  does (\<open>n_peers\<close> is \<open>rpc::n_peers()\<close>). The variables \<open>n_threads\<close> and \<open>n_grains\<close>
  are of type \<open>index_t\<close> in \<open>Solve\<close> and of type \<open>int\<close> in the runner, both 32-bit
  integers: every value stored in them and every product taken on them is reduced by
  \<open>int32\<close>.
\<close>

definition Solve_n_grains :: "datanode \<Rightarrow> int" where
  "Solve_n_grains m =
     (let n_threads = int32 (fx_param_int m ''n_threads'' 1)
      in int32 (fx_param_int m ''n_grains''
                  (if n_threads = 1 then 1 else int32 (n_threads * 3))))"

definition SetupMaster_n_grains :: "datanode \<Rightarrow> int \<Rightarrow> int" where
  "SetupMaster_n_grains m n_peers =
     (let n_threads = int32 (fx_param_int m ''n_threads'' 1)
      in int32 (fx_param_int m ''n_grains'' (int32 (int32 (n_threads * int32 n_peers) * 3))))"

subsection \<open>Statistic propagation\<close>

text \<open>
  The node and point arrays are lists indexed from 0. A node of the tree has a range
  of points (\<open>begin\<close>, \<open>count\<close>), a bound, a statistic and, unless it is a leaf, two
  children given by their indices. Fields whose names are taken already carry the
  suffix \<open>_n\<close>. The statistic's operations are template parameters; the two overloads
  of \<open>Accumulate\<close> are \<open>AccumulatePoint\<close> and \<open>AccumulateChild\<close>.
\<close>

record ('bd, 'st) SpNode =
  begin_n :: nat
  count_n :: nat
  bound_n :: 'bd
  stat :: 'st
  is_leaf :: bool
  child0 :: nat
  child1 :: nat

definition child :: "('bd, 'st) SpNode \<Rightarrow> nat \<Rightarrow> nat" where
  "child node k = (if k = 0 then child0 node else child1 node)"

record ('pa, 'pt, 'bd, 'st) StatOps =
  Reset :: "'pa \<Rightarrow> 'st \<Rightarrow> 'st"
  AccumulatePoint :: "'pa \<Rightarrow> 'pt \<Rightarrow> 'st \<Rightarrow> 'st"
  AccumulateChild :: "'pa \<Rightarrow> 'st \<Rightarrow> 'bd \<Rightarrow> nat \<Rightarrow> 'st \<Rightarrow> 'st"
  Postprocess :: "'pa \<Rightarrow> 'bd \<Rightarrow> nat \<Rightarrow> 'st \<Rightarrow> 'st"

text \<open>\<open>node->stat().f(...)\<close> through the write handle of node \<open>i\<close>.\<close>

definition upd_stat ::
  "nat \<Rightarrow> ('st \<Rightarrow> 'st) \<Rightarrow> ('bd, 'st) SpNode list \<Rightarrow> ('bd, 'st) SpNode list" where
  "upd_stat i f nodes = nodes[i := (nodes ! i)\<lparr>stat := f (stat (nodes ! i))\<rparr>]"

text \<open>The loop over the points of a leaf, reading \<open>points\<close> from \<open>begin\<close> on.\<close>

fun accumulate_points ::
  "('pa, 'pt, 'bd, 'st) StatOps \<Rightarrow> 'pa \<Rightarrow> 'pt list \<Rightarrow> nat \<Rightarrow> nat list
    \<Rightarrow> ('bd, 'st) SpNode list \<Rightarrow> ('bd, 'st) SpNode list option" where
  "accumulate_points ops param points node_index [] nodes = Some nodes"
| "accumulate_points ops param points node_index (i # is) nodes =
     (if begin_n (nodes ! node_index) + i < length points
      then accumulate_points ops param points node_index is
             (upd_stat node_index
                (AccumulatePoint ops param (points ! (begin_n (nodes ! node_index) + i))) nodes)
      else None)"

text \<open>
  \<open>FixRecursively_\<close>. The recursion follows child indices stored in the array, which
  need not form a tree, so the function takes fuel: the result is \<open>None\<close> when the
  fuel runs out and when an index lies outside its array.
\<close>

fun FixRecursively ::
  "nat \<Rightarrow> ('pa, 'pt, 'bd, 'st) StatOps \<Rightarrow> 'pa \<Rightarrow> 'pt list \<Rightarrow> ('bd, 'st) SpNode list \<Rightarrow> nat
    \<Rightarrow> ('bd, 'st) SpNode list option" and
  fix_child ::
  "nat \<Rightarrow> ('pa, 'pt, 'bd, 'st) StatOps \<Rightarrow> 'pa \<Rightarrow> 'pt list \<Rightarrow> nat \<Rightarrow> nat
    \<Rightarrow> ('bd, 'st) SpNode list \<Rightarrow> ('bd, 'st) SpNode list option" where
  "FixRecursively 0 ops param points nodes node_index = None"
| "FixRecursively (Suc fuel) ops param points nodes node_index =
     (if \<not> node_index < length nodes then None
      else
        (case
           (if \<not> is_leaf (nodes ! node_index) then
              (case fix_child fuel ops param points node_index 0
                      (upd_stat node_index (Reset ops param) nodes) of
                 None \<Rightarrow> None
               | Some nodes1 \<Rightarrow>
                   (case fix_child fuel ops param points node_index 1 nodes1 of
                      None \<Rightarrow> None
                    | Some nodes2 \<Rightarrow>
                        Some (upd_stat node_index
                                (Postprocess ops param (bound_n (nodes2 ! node_index))
                                   (count_n (nodes2 ! node_index))) nodes2)))
            else
              accumulate_points ops param points node_index
                [0 ..< count_n (nodes ! node_index)]
                (upd_stat node_index (Reset ops param) nodes))
         of
           None \<Rightarrow> None
         | Some nodes3 \<Rightarrow>
             Some (upd_stat node_index
                     (Postprocess ops param (bound_n (nodes3 ! node_index))
                        (count_n (nodes3 ! node_index))) nodes3)))"
| "fix_child fuel ops param points node_index k nodes =
     (case FixRecursively fuel ops param points nodes (child (nodes ! node_index) k) of
        None \<Rightarrow> None
      | Some nodes' \<Rightarrow>
          Some (upd_stat node_index
                  (AccumulateChild ops param
                     (stat (nodes' ! child (nodes ! node_index) k))
                     (bound_n (nodes' ! child (nodes ! node_index) k))
                     (count_n (nodes' ! child (nodes ! node_index) k))) nodes'))"


text \<open>
  A statistic that records the operations applied to it: \<open>Reset\<close> starts the record
  afresh, every other operation appends its own entry.
\<close>

datatype ('pt, 'bd) StatEvent =
  DidReset
| DidAccumulatePoint 'pt
| DidAccumulateChild 'bd nat
| DidPostprocess 'bd nat

definition recordingStat :: "(unit, 'pt, 'bd, ('pt, 'bd) StatEvent list) StatOps" where
  "recordingStat =
     \<lparr>Reset = (\<lambda>param st. [DidReset]),
      AccumulatePoint = (\<lambda>param pt st. st @ [DidAccumulatePoint pt]),
      AccumulateChild = (\<lambda>param cst bd n st. st @ [DidAccumulateChild bd n]),
      Postprocess = (\<lambda>param bd n st. st @ [DidPostprocess bd n])\<rparr>"

text \<open>
  A root (node 0, bound \<open>''R''\<close>) over two leaves (nodes 1 and 2, bounds \<open>''A''\<close> and
  \<open>''B''\<close>) holding the points 10, 11 and 12, 13.
\<close>

definition threeNodes :: "(string, (nat, string) StatEvent list) SpNode list" where
  "threeNodes =
     [\<lparr>begin_n = 0, count_n = 4, bound_n = ''R'', stat = [], is_leaf = False, child0 = 1, child1 = 2\<rparr>,
      \<lparr>begin_n = 0, count_n = 2, bound_n = ''A'', stat = [], is_leaf = True, child0 = 0, child1 = 0\<rparr>,
      \<lparr>begin_n = 2, count_n = 2, bound_n = ''B'', stat = [], is_leaf = True, child0 = 0, child1 = 0\<rparr>]"

definition postprocess_count :: "('pt, 'bd) StatEvent list \<Rightarrow> nat" where
  "postprocess_count st = length (filter (\<lambda>e. case e of DidPostprocess bd n \<Rightarrow> True | _ \<Rightarrow> False) st)"

text \<open>
  C4: statistic propagation is one post-order pass that resets the statistic of a
  node, accumulates the points of a leaf or the children of an inner node (each after
  the recursion into it), and applies \<open>Postprocess\<close>. On the three-node tree the
  leaves are postprocessed once, as the claim says, but the root is postprocessed
  twice: once at the end of the branch for inner nodes and once more by the statement
  that ends the function.
\<close>

theorem FixRecursively_postprocess_twice:
  "map_option (map stat) (FixRecursively 2 recordingStat () [10, 11, 12, 13] threeNodes 0) =
     Some [[DidReset, DidAccumulateChild ''A'' 2, DidAccumulateChild ''B'' 2,
            DidPostprocess ''R'' 4, DidPostprocess ''R'' 4],
           [DidReset, DidAccumulatePoint 10, DidAccumulatePoint 11, DidPostprocess ''A'' 2],
           [DidReset, DidAccumulatePoint 12, DidAccumulatePoint 13, DidPostprocess ''B'' 2]]
   \<and> map_option (map (postprocess_count \<circ> stat))
         (FixRecursively 2 recordingStat () [10, 11, 12, 13] threeNodes 0) = Some [2, 1, 1]"
  by (simp add: numeral_2_eq_2 threeNodes_def recordingStat_def upd_stat_def child_def
      upt_rec postprocess_count_def)

lemma int32_id: "- (2 ^ 31) \<le> x \<Longrightarrow> x < 2 ^ 31 \<Longrightarrow> int32 x = x"
  by (simp add: int32_def)

lemma int32_idem: "int32 (int32 x) = int32 x"
  by (simp add: int32_def mod_diff_left_eq)

text \<open>
  C8 (as the code has it): when \<open>n_grains\<close> is not supplied, the local solver asks
  for one grain if \<open>n_threads\<close> is 1 and otherwise for the product \<open>n_threads * 3\<close>
  as 32-bit arithmetic gives it, which is \<open>n_threads * 3\<close> whenever that number is a
  32-bit integer; the distributed runner asks for \<open>n_threads * n_peers * 3\<close> as 32-bit
  arithmetic gives it, which is that number whenever the factors and the products are
  32-bit integers.
\<close>

theorem Solve_n_grains_default:
  assumes "m ''n_grains'' = None"
    and "n_threads = int32 (fx_param_int m ''n_threads'' 1)"
  shows "Solve_n_grains m = (if n_threads = 1 then 1 else int32 (n_threads * 3))
    \<and> SetupMaster_n_grains m n_peers = int32 (int32 (n_threads * int32 n_peers) * 3)
    \<and> (n_threads \<noteq> 1 \<and> - (2 ^ 31) \<le> n_threads * 3 \<and> n_threads * 3 < 2 ^ 31
         \<longrightarrow> Solve_n_grains m = n_threads * 3)
    \<and> (- (2 ^ 31) \<le> n_peers \<and> n_peers < 2 ^ 31
         \<and> - (2 ^ 31) \<le> n_threads * n_peers \<and> n_threads * n_peers < 2 ^ 31
         \<and> - (2 ^ 31) \<le> n_threads * n_peers * 3 \<and> n_threads * n_peers * 3 < 2 ^ 31
         \<longrightarrow> SetupMaster_n_grains m n_peers = n_threads * n_peers * 3)"
  using assms
  by (simp add: Solve_n_grains_def SetupMaster_n_grains_def fx_param_int_def int32_idem int32_id)

theorem Solve_n_grains_default_witness:
  "[''n_threads'' \<mapsto> 4] ''n_grains'' = None
   \<and> Solve_n_grains [''n_threads'' \<mapsto> 4] = 12
   \<and> SetupMaster_n_grains [''n_threads'' \<mapsto> 4] 5 = 60
   \<and> Solve_n_grains Map.empty = 1
   \<and> Solve_n_grains [''n_threads'' \<mapsto> 1000000000] = - 1294967296"
proof -
  have h1: "[''n_threads'' \<mapsto> (4::int)] ''n_grains'' = None" by simp
  have h2: "(Map.empty :: datanode) ''n_grains'' = None" by simp
  have h3: "[''n_threads'' \<mapsto> (1000000000::int)] ''n_grains'' = None" by simp
  from Solve_n_grains_default [of "[''n_threads'' \<mapsto> 4]" 4 5]
    Solve_n_grains_default [of Map.empty 1 1]
    Solve_n_grains_default [of "[''n_threads'' \<mapsto> 1000000000]" 1000000000 1] h1 h2 h3
  show ?thesis by (simp add: fx_param_int_def int32_def)
qed

text \<open>
  With one thread and no \<open>n_grains\<close> the local solver does not ask for
  \<open>n_threads * 3\<close> grains.
\<close>

theorem Solve_n_grains_default_counterexample:
  "[''n_threads'' \<mapsto> 1] ''n_grains'' = None
   \<and> fx_param_int [''n_threads'' \<mapsto> 1] ''n_threads'' 1 = 1
   \<and> Solve_n_grains [''n_threads'' \<mapsto> 1] \<noteq> 1 * 3"
  by (simp add: Solve_n_grains_def fx_param_int_def int32_def)

section \<open>All-nearest-neighbours search\<close>

text \<open>
  Modelled from the spec: \<open>ComputeNeighbors\<close> and the traversal it runs are not in
  the files at hand, only the test that calls it. The definitions of this section
  follow the spec's description of the dual-tree traversal and of its three modes.
  Distances are exact (reals) where the program computes in floating point, so two
  results that are equal here agree within every tolerance. The distance of two
  points is the squared Euclidean distance, as in the spec's concrete scenario.
\<close>

definition sqdist :: "point \<Rightarrow> point \<Rightarrow> real" where
  "sqdist p q = sum_list (map2 (\<lambda>x y. (x - y)\<^sup>2) p q)"

text \<open>
  Modelled from the spec: \<open>Bound.minDistance(point)\<close> and \<open>Bound.minDistance(bound)\<close>,
  operations of the bound class, which is not in the files at hand. Per dimension the
  distance from a range to a coordinate, or between two ranges, is the gap between
  them; the squares of the gaps are summed. \<open>sqDiameter\<close> is the square of the
  diagonal and orders bounds as the diameter does.
\<close>

fun Range_gap :: "Range \<Rightarrow> Range \<Rightarrow> real" where
  "Range_gap (Some (lo1, hi1)) (Some (lo2, hi2)) = max 0 (lo1 - hi2) + max 0 (lo2 - hi1)"
| "Range_gap r s = 0"

definition minDistance_point :: "HRectBound \<Rightarrow> point \<Rightarrow> real" where
  "minDistance_point b p = sum_list (map2 (\<lambda>r x. (Range_enlargement r x)\<^sup>2) b p)"

definition minDistance_bound :: "HRectBound \<Rightarrow> HRectBound \<Rightarrow> real" where
  "minDistance_bound b c = sum_list (map2 (\<lambda>r s. (Range_gap r s)\<^sup>2) b c)"

definition sqDiameter :: "HRectBound \<Rightarrow> real" where
  "sqDiameter b = sum_list (map (\<lambda>r. (Range_width r)\<^sup>2) b)"

text \<open>
  Modelled from the spec: the spatial node of the tree the builder makes (the builder
  and the node class are not in the files at hand). A node has a bound and is either a
  leaf that owns points, given by their indices in the dataset, or an inner node with
  two children.
\<close>

datatype SpatialNode =
  Leaf (node_bound: HRectBound) "nat list"
| Inner (node_bound: HRectBound) SpatialNode SpatialNode

fun node_indices :: "SpatialNode \<Rightarrow> nat list" where
  "node_indices (Leaf b js) = js"
| "node_indices (Inner b l r) = node_indices l @ node_indices r"

text \<open>
  Modelled from the spec: the result list of a query point, an insertion-sorted list
  of at most \<open>k\<close> pairs of distance and index, ascending by distance. Of two
  neighbours at the same distance the one of higher index comes first: this is the
  order the test \<open>exhaustive_synthetic_test\<close> requires of every mode where two
  neighbours are equally far (points 9 and 5 seen from point 1, points 9 and 7 seen
  from point 5), so the order does not depend on which of them is seen first.
  \<open>kth_best\<close> is the distance of the \<open>k\<close>-th neighbour once the list is full, and a
  node is pruned for a query point when the pruning bound exceeds it.
\<close>

type_synonym neighbor = "real \<times> nat"

fun insert_sorted :: "neighbor \<Rightarrow> neighbor list \<Rightarrow> neighbor list" where
  "insert_sorted c [] = [c]"
| "insert_sorted c (x # xs) =
     (if fst c < fst x \<or> (fst c = fst x \<and> snd x < snd c) then c # x # xs
      else x # insert_sorted c xs)"

definition update_topk :: "nat \<Rightarrow> neighbor \<Rightarrow> neighbor list \<Rightarrow> neighbor list" where
  "update_topk k c lst = take k (insert_sorted c lst)"

definition kth_best :: "nat \<Rightarrow> neighbor list \<Rightarrow> real option" where
  "kth_best k lst = (if lst = [] \<or> length lst < k then None else Some (fst (last lst)))"

definition prunable :: "nat \<Rightarrow> real \<Rightarrow> neighbor list \<Rightarrow> bool" where
  "prunable k b lst = (case kth_best k lst of None \<Rightarrow> False | Some w \<Rightarrow> w < b)"

text \<open>
  Modelled from the spec: the base case of the traversal (not in the files at hand).
  Every pair of a query point and a reference point of the two leaves is evaluated and
  the query point's list updated. Query and reference set are the same dataset, and a
  point is not a neighbour of itself (the scenario of the spec lists ten neighbours
  for each of eleven points).
\<close>

fun base_case_query :: "nat \<Rightarrow> point list \<Rightarrow> nat \<Rightarrow> nat list \<Rightarrow> neighbor list \<Rightarrow> neighbor list" where
  "base_case_query k pts qi [] lst = lst"
| "base_case_query k pts qi (j # js) lst =
     base_case_query k pts qi js
       (if j = qi then lst else update_topk k (sqdist (pts ! qi) (pts ! j), j) lst)"

fun base_case :: "nat \<Rightarrow> point list \<Rightarrow> nat list \<Rightarrow> nat list \<Rightarrow> neighbor list list \<Rightarrow> neighbor list list" where
  "base_case k pts [] rs table = table"
| "base_case k pts (qi # qs) rs table =
     base_case k pts qs rs (table[qi := base_case_query k pts qi rs (table ! qi)])"

text \<open>
  Modelled from the spec: the single-tree traversal (not in the files at hand). The
  query side is one point. A reference node is pruned when its least distance to the
  query point exceeds the point's \<open>k\<close>-th best distance; a leaf is a base case; the
  children of an inner node are visited closest first.
\<close>

fun single_visit :: "nat \<Rightarrow> point list \<Rightarrow> nat \<Rightarrow> SpatialNode \<Rightarrow> neighbor list \<Rightarrow> neighbor list" where
  "single_visit k pts qi (Leaf b rs) lst =
     (if prunable k (minDistance_point b (pts ! qi)) lst then lst
      else base_case_query k pts qi rs lst)"
| "single_visit k pts qi (Inner b r1 r2) lst =
     (if prunable k (minDistance_point b (pts ! qi)) lst then lst
      else if minDistance_point (node_bound r1) (pts ! qi) \<le> minDistance_point (node_bound r2) (pts ! qi)
        then single_visit k pts qi r2 (single_visit k pts qi r1 lst)
        else single_visit k pts qi r1 (single_visit k pts qi r2 lst))"

text \<open>
  Modelled from the spec: the dual-tree traversal over a pair of a query node and a
  reference node (not in the files at hand). The pair is pruned when the least
  distance between the two bounds exceeds the \<open>k\<close>-th best distance of every query
  point under the query node. Two leaves are a base case. Otherwise the inner node of
  the pair is expanded or, of two inner nodes, the one with the larger bound (the
  query node when the bounds are equally large); reference children are tried closest
  first.
\<close>

definition prunable_dual :: "nat \<Rightarrow> SpatialNode \<Rightarrow> SpatialNode \<Rightarrow> neighbor list list \<Rightarrow> bool" where
  "prunable_dual k q r table =
     list_all (\<lambda>qi. prunable k (minDistance_bound (node_bound q) (node_bound r)) (table ! qi))
       (node_indices q)"

fun dual_visit :: "nat \<Rightarrow> point list \<Rightarrow> SpatialNode \<Rightarrow> SpatialNode \<Rightarrow> neighbor list list \<Rightarrow> neighbor list list" where
  "dual_visit k pts (Leaf bq qs) (Leaf br rs) table =
     (if prunable_dual k (Leaf bq qs) (Leaf br rs) table then table
      else base_case k pts qs rs table)"
| "dual_visit k pts (Leaf bq qs) (Inner br r1 r2) table =
     (if prunable_dual k (Leaf bq qs) (Inner br r1 r2) table then table
      else if minDistance_bound bq (node_bound r1) \<le> minDistance_bound bq (node_bound r2)
        then dual_visit k pts (Leaf bq qs) r2 (dual_visit k pts (Leaf bq qs) r1 table)
        else dual_visit k pts (Leaf bq qs) r1 (dual_visit k pts (Leaf bq qs) r2 table))"
| "dual_visit k pts (Inner bq q1 q2) (Leaf br rs) table =
     (if prunable_dual k (Inner bq q1 q2) (Leaf br rs) table then table
      else dual_visit k pts q2 (Leaf br rs) (dual_visit k pts q1 (Leaf br rs) table))"
| "dual_visit k pts (Inner bq q1 q2) (Inner br r1 r2) table =
     (if prunable_dual k (Inner bq q1 q2) (Inner br r1 r2) table then table
      else if sqDiameter br \<le> sqDiameter bq
        then dual_visit k pts q2 (Inner br r1 r2) (dual_visit k pts q1 (Inner br r1 r2) table)
      else if minDistance_bound bq (node_bound r1) \<le> minDistance_bound bq (node_bound r2)
        then dual_visit k pts (Inner bq q1 q2) r2 (dual_visit k pts (Inner bq q1 q2) r1 table)
        else dual_visit k pts (Inner bq q1 q2) r1 (dual_visit k pts (Inner bq q1 q2) r2 table))"

text \<open>
  Modelled from the spec: \<open>ComputeNeighbors\<close> in its three modes (not in the files at
  hand). The tree is the one the builder made of the points. In naive mode both trees
  are one leaf with all points, in the order of the dataset, and the traversal is the
  base case. The result has one list per query point; \<open>neighbors_of\<close> is the table of
  neighbour indices and \<open>distances_of\<close> the table of distances.
\<close>

datatype Mode = Naive | SingleTree | DualTree

fun ComputeNeighbors :: "Mode \<Rightarrow> nat \<Rightarrow> point list \<Rightarrow> SpatialNode \<Rightarrow> neighbor list list" where
  "ComputeNeighbors Naive k pts tree =
     base_case k pts [0 ..< length pts] [0 ..< length pts] (replicate (length pts) [])"
| "ComputeNeighbors SingleTree k pts tree =
     map (\<lambda>qi. single_visit k pts qi tree []) [0 ..< length pts]"
| "ComputeNeighbors DualTree k pts tree =
     dual_visit k pts tree tree (replicate (length pts) [])"

declare ComputeNeighbors.simps [simp del]



text \<open>
  Modelled from the spec: the invariant of the tree (the builder is not in the files
  at hand). The bound of every node contains every point of the node's subtree, and
  every point of the dataset is owned by exactly one leaf.
\<close>

fun node_ok :: "point list \<Rightarrow> SpatialNode \<Rightarrow> bool" where
  "node_ok pts (Leaf b js) = (\<forall>j \<in> set js. j < length pts \<and> Contains b (pts ! j))"
| "node_ok pts (Inner b l r) =
     (node_ok pts l \<and> node_ok pts r
      \<and> (\<forall>j \<in> set (node_indices l @ node_indices r). Contains b (pts ! j)))"

definition tree_ok :: "point list \<Rightarrow> SpatialNode \<Rightarrow> bool" where
  "tree_ok pts tree \<longleftrightarrow> node_ok pts tree \<and> sort (node_indices tree) = [0 ..< length pts]"

subsection \<open>Example dataset\<close>

text \<open>
  The dataset of the spec's concrete scenario with its midpoint-split tree (each node
  is split at the midpoint of its bound, leaves hold at most five points), and the
  table of neighbour indices that the test requires of every mode, one row per query
  point.
\<close>

definition scenario :: "point list" where
  "scenario = [[0.05], [0.35], [0.15], [1.25], [5.05], [-0.20], [-2.00], [-1.30], [0.45], [0.90], [1.00]]"

definition scenarioTree :: SpatialNode where
  "scenarioTree =
     Inner [Some (-2, 5.05)]
       (Inner [Some (-2, 1.25)]
          (Leaf [Some (-2, -1.3)] [6, 7])
          (Inner [Some (-0.2, 1.25)]
             (Leaf [Some (-0.2, 0.45)] [0, 1, 2, 5, 8])
             (Leaf [Some (0.9, 1.25)] [3, 9, 10])))
       (Leaf [Some (5.05, 5.05)] [4])"


subsection \<open>The result lists\<close>

text \<open>
  \<open>neighbor_key\<close> orders neighbours as the result list does: by distance, and at
  equal distance by descending index. \<open>knn_inv k d M lst\<close>: the list \<open>lst\<close> accounts
  for the reference points \<open>M\<close>, that is, it holds the first \<open>k\<close> of the points of
  \<open>M\<close>, each with its distance \<open>d\<close>, in this order.
\<close>

definition neighbor_key :: "neighbor \<Rightarrow> real \<times> int" where
  "neighbor_key c = (fst c, - int (snd c))"

definition knn_inv :: "nat \<Rightarrow> (nat \<Rightarrow> real) \<Rightarrow> nat multiset \<Rightarrow> neighbor list \<Rightarrow> bool" where
  "knn_inv k d M lst \<longleftrightarrow>
     map neighbor_key lst
       = take k (sorted_list_of_multiset (image_mset (\<lambda>j. neighbor_key (d j, j)) M))"

abbreviation qdist :: "point list \<Rightarrow> nat \<Rightarrow> nat \<Rightarrow> real" where
  "qdist pts qi \<equiv> (\<lambda>j. sqdist (pts ! qi) (pts ! j))"

abbreviation others :: "nat \<Rightarrow> nat list \<Rightarrow> nat multiset" where
  "others qi js \<equiv> mset (filter (\<lambda>j. j \<noteq> qi) js)"

text \<open>
  The state of the table of result lists before and after a node pair is visited: the
  lists of the query points \<open>qs\<close> account for the reference points \<open>rs\<close> in addition,
  the other lists are as before.
\<close>

definition table_pre ::
  "nat \<Rightarrow> point list \<Rightarrow> nat list \<Rightarrow> (nat \<Rightarrow> nat multiset) \<Rightarrow> neighbor list list \<Rightarrow> bool" where
  "table_pre k pts qs M table \<longleftrightarrow>
     (\<forall>qi \<in> set qs. qi < length table \<and> knn_inv k (qdist pts qi) (M qi) (table ! qi))"

definition table_step ::
  "nat \<Rightarrow> point list \<Rightarrow> nat list \<Rightarrow> nat list \<Rightarrow> (nat \<Rightarrow> nat multiset)
    \<Rightarrow> neighbor list list \<Rightarrow> neighbor list list \<Rightarrow> bool" where
  "table_step k pts qs rs M table table' \<longleftrightarrow>
     length table' = length table
     \<and> (\<forall>qi. qi \<notin> set qs \<longrightarrow> table' ! qi = table ! qi)
     \<and> table_pre k pts qs (\<lambda>qi. M qi + others qi rs) table'"

lemma take_insort_take:
  "sorted ys \<Longrightarrow> take k (insort x (take k ys)) = take k (insort (x::'a::linorder) ys)"
proof (induction ys arbitrary: k)
  case Nil
  then show ?case by simp
next
  case (Cons y ys)
  show ?case
  proof (cases k)
    case 0
    then show ?thesis by simp
  next
    case (Suc k')
    with Cons show ?thesis
      by (cases k') (auto simp: min_def)
  qed
qed

lemma take_insort_skip:
  "sorted ys \<Longrightarrow> k \<le> length ys \<Longrightarrow> \<forall>y \<in> set (take k ys). y \<le> x \<Longrightarrow>
   take k (insort (x::'a::linorder) ys) = take k ys"
proof (induction ys arbitrary: k)
  case Nil
  then show ?case by simp
next
  case (Cons y ys)
  show ?case
  proof (cases k)
    case 0
    then show ?thesis by simp
  next
    case (Suc k')
    with Cons.prems have "y \<le> x" by simp
    have "insort x (y # ys) = y # insort x ys"
    proof (cases "x \<le> y")
      case True
      with \<open>y \<le> x\<close> have "x = y" by simp
      moreover from Cons.prems(1) have "\<forall>z \<in> set ys. y \<le> z" by simp
      ultimately show ?thesis by (simp add: insort_is_Cons)
    next
      case False
      then show ?thesis by simp
    qed
    with Cons Suc show ?thesis by auto
  qed
qed

lemma neighbor_key_less:
  "neighbor_key c < neighbor_key x \<longleftrightarrow> fst c < fst x \<or> (fst c = fst x \<and> snd x < snd c)"
  by (auto simp: neighbor_key_def less_prod_def)

lemma inj_neighbor_key: "inj neighbor_key"
  by (auto simp: inj_on_def neighbor_key_def prod_eq_iff)

lemma insert_sorted_key:
  "insert_sorted c (x # xs) =
     (if neighbor_key c < neighbor_key x then c # x # xs else x # insert_sorted c xs)"
  by (simp add: neighbor_key_less)

lemma map_key_insert_sorted:
  "sorted (map neighbor_key l) \<Longrightarrow>
   map neighbor_key (insert_sorted c l) = insort (neighbor_key c) (map neighbor_key l)"
proof (induction l)
  case Nil
  then show ?case by simp
next
  case (Cons x l)
  show ?case
  proof (cases "neighbor_key c < neighbor_key x")
    case True
    then have "neighbor_key c \<le> neighbor_key x" by (rule less_imp_le)
    with True show ?thesis by (simp add: insert_sorted_key del: insert_sorted.simps(2))
  next
    case False
    show ?thesis
    proof (cases "neighbor_key c = neighbor_key x")
      case True
      from Cons.prems have "\<forall>y \<in> set (map neighbor_key l). neighbor_key c \<le> y"
        using True by auto
      then have "insort (neighbor_key c) (map neighbor_key l) = neighbor_key c # map neighbor_key l"
        by (cases l) auto
      with Cons True show ?thesis by (simp add: insert_sorted_key del: insert_sorted.simps(2))
    next
      case neq: False
      with False Cons show ?thesis
        by (auto simp add: insert_sorted_key simp del: insert_sorted.simps(2))
    qed
  qed
qed

lemma knn_inv_empty: "knn_inv k d {#} []"
  by (simp add: knn_inv_def)

lemma knn_inv_insert:
  assumes "knn_inv k d M lst"
  shows "knn_inv k d (add_mset j M) (update_topk k (d j, j) lst)"
proof -
  let ?S = "sorted_list_of_multiset (image_mset (\<lambda>j. neighbor_key (d j, j)) M)"
  from assms have key_eq: "map neighbor_key lst = take k ?S" by (simp add: knn_inv_def)
  then have srt: "sorted (map neighbor_key lst)" by simp
  have "map neighbor_key (update_topk k (d j, j) lst)
          = take k (insort (neighbor_key (d j, j)) (map neighbor_key lst))"
    using map_key_insert_sorted [OF srt, of "(d j, j)"] by (simp add: update_topk_def flip: take_map)
  also have "\<dots> = take k (insort (neighbor_key (d j, j)) ?S)"
    unfolding key_eq by (rule take_insort_take) simp
  finally show ?thesis by (simp add: knn_inv_def)
qed

lemma knn_inv_skip1:
  assumes "knn_inv k d M lst" "prunable k b lst" "b \<le> d j"
  shows "knn_inv k d (add_mset j M) lst"
proof -
  let ?S = "sorted_list_of_multiset (image_mset (\<lambda>j. neighbor_key (d j, j)) M)"
  from assms(1) have key_eq: "map neighbor_key lst = take k ?S" by (simp add: knn_inv_def)
  from assms(2) have ne: "lst \<noteq> []" and len: "\<not> length lst < k" and w: "fst (last lst) < b"
    by (auto simp: prunable_def kth_best_def split: if_splits)
  have "length lst = length (take k ?S)" using key_eq by (metis length_map)
  with len have k_le: "k \<le> length ?S" by simp
  have srt: "sorted (map neighbor_key lst)" using key_eq by simp
  have last_less: "neighbor_key (last lst) < neighbor_key (d j, j)"
    using w assms(3) by (simp add: neighbor_key_less)
  have "\<forall>y \<in> set (map neighbor_key lst). y \<le> neighbor_key (last lst)"
  proof
    fix y assume "y \<in> set (map neighbor_key lst)"
    then obtain i where i: "i < length lst" "y = map neighbor_key lst ! i"
      by (metis in_set_conv_nth length_map)
    have "map neighbor_key lst ! i \<le> map neighbor_key lst ! (length lst - 1)"
      using i(1) by (intro sorted_nth_mono [OF srt]) auto
    with i ne show "y \<le> neighbor_key (last lst)" by (simp add: last_conv_nth)
  qed
  with last_less have "\<forall>y \<in> set (take k ?S). y \<le> neighbor_key (d j, j)"
    unfolding key_eq [symmetric] by force
  then have "take k (insort (neighbor_key (d j, j)) ?S) = take k ?S"
    using k_le by (intro take_insort_skip) simp_all
  with assms(1) show ?thesis by (simp add: knn_inv_def)
qed

lemma knn_inv_skip:
  assumes "knn_inv k d M lst" "prunable k b lst" "\<forall>j \<in> set js. b \<le> d j"
  shows "knn_inv k d (M + mset js) lst"
  using assms(3)
proof (induction js)
  case Nil
  with assms(1) show ?case by simp
next
  case (Cons j js)
  then have "knn_inv k d (M + mset js) lst" by simp
  from knn_inv_skip1 [OF this assms(2), of j] Cons.prems show ?case by simp
qed

lemma knn_inv_unique:
  assumes "knn_inv k d M l1" "knn_inv k d M l2"
  shows "l1 = l2"
proof -
  from assms have "map neighbor_key l1 = map neighbor_key l2" by (simp add: knn_inv_def)
  then show ?thesis by (simp add: inj_map_eq_map [OF inj_neighbor_key])
qed

lemma Range_enlargement_sound:
  "Range_contains r x \<Longrightarrow> (Range_enlargement r q)\<^sup>2 \<le> (q - x)\<^sup>2"
proof (cases r)
  case None
  then show ?thesis by simp
next
  case (Some a)
  assume c: "Range_contains r x"
  obtain lo hi where a: "a = (lo, hi)" by (cases a)
  with c Some have "lo \<le> x" "x \<le> hi" by simp_all
  then have "\<bar>Range_enlargement r q\<bar> \<le> \<bar>q - x\<bar>"
    using Some a by (auto simp: max_def)
  then show ?thesis by (simp only: abs_le_square_iff)
qed

lemma Range_gap_sound:
  "Range_contains r x \<Longrightarrow> Range_contains s y \<Longrightarrow> (Range_gap r s)\<^sup>2 \<le> (x - y)\<^sup>2"
proof -
  assume c: "Range_contains r x" "Range_contains s y"
  then obtain lo1 hi1 lo2 hi2 where r: "r = Some (lo1, hi1)" and s: "s = Some (lo2, hi2)"
    by (cases r; cases s) auto
  with c have "lo1 \<le> x" "x \<le> hi1" "lo2 \<le> y" "y \<le> hi2" by simp_all
  then have "\<bar>Range_gap r s\<bar> \<le> \<bar>x - y\<bar>"
    using r s by (auto simp: max_def)
  then show ?thesis by (simp only: abs_le_square_iff)
qed

lemma minDistance_point_sound:
  "Contains b x \<Longrightarrow> minDistance_point b q \<le> sqdist q x"
  unfolding Contains_def minDistance_point_def sqdist_def
proof (induction b x arbitrary: q rule: list_all2_induct)
  case Nil
  then show ?case by simp
next
  case (Cons r b x xs)
  show ?case
  proof (cases q)
    case Nil
    then show ?thesis by simp
  next
    case (Cons a q')
    with Cons.IH [of q'] Range_enlargement_sound [OF Cons.hyps(1), of a]
    show ?thesis by simp
  qed
qed

lemma minDistance_bound_sound:
  "Contains b x \<Longrightarrow> Contains c y \<Longrightarrow> minDistance_bound b c \<le> sqdist x y"
  unfolding Contains_def minDistance_bound_def sqdist_def
proof (induction b x arbitrary: c y rule: list_all2_induct)
  case Nil
  then show ?case by simp
next
  case (Cons r b x xs)
  show ?case
  proof (cases c)
    case Nil
    with Cons.prems show ?thesis by simp
  next
    case c: (Cons s c')
    with Cons.prems obtain y' ys where y: "y = y' # ys"
      and h: "Range_contains s y'" "list_all2 Range_contains c' ys"
      by (auto simp: list_all2_Cons1)
    with Cons.IH [OF h(2)] Range_gap_sound [OF Cons.hyps(1) h(1)] c
    show ?thesis by simp
  qed
qed

lemma node_ok_contains:
  "node_ok pts t \<Longrightarrow> j \<in> set (node_indices t) \<Longrightarrow> Contains (node_bound t) (pts ! j)"
  by (cases t) auto

lemma node_ok_less:
  "node_ok pts t \<Longrightarrow> j \<in> set (node_indices t) \<Longrightarrow> j < length pts"
  by (induction t) auto

lemma base_case_query_inv:
  "knn_inv k (qdist pts qi) M lst \<Longrightarrow>
   knn_inv k (qdist pts qi) (M + others qi js) (base_case_query k pts qi js lst)"
proof (induction js arbitrary: M lst)
  case Nil
  then show ?case by simp
next
  case (Cons j js)
  show ?case
  proof (cases "j = qi")
    case True
    with Cons.IH [OF Cons.prems] show ?thesis by simp
  next
    case False
    from knn_inv_insert [OF Cons.prems, of j]
    have "knn_inv k (qdist pts qi) (add_mset j M) (update_topk k (qdist pts qi j, j) lst)" .
    from Cons.IH [OF this] False show ?thesis by simp
  qed
qed

lemma prune_point_inv:
  assumes "knn_inv k (qdist pts qi) M lst" "node_ok pts t"
    and "prunable k (minDistance_point (node_bound t) (pts ! qi)) lst"
  shows "knn_inv k (qdist pts qi) (M + others qi (node_indices t)) lst"
proof (rule knn_inv_skip [OF assms(1,3)])
  show "\<forall>j \<in> set (filter (\<lambda>j. j \<noteq> qi) (node_indices t)).
          minDistance_point (node_bound t) (pts ! qi) \<le> qdist pts qi j"
    using assms(2) by (auto intro!: minDistance_point_sound node_ok_contains)
qed

lemma single_visit_inv:
  "knn_inv k (qdist pts qi) M lst \<Longrightarrow> node_ok pts t \<Longrightarrow>
   knn_inv k (qdist pts qi) (M + others qi (node_indices t)) (single_visit k pts qi t lst)"
proof (induction t arbitrary: M lst)
  case (Leaf b rs)
  show ?case
  proof (cases "prunable k (minDistance_point b (pts ! qi)) lst")
    case True
    with prune_point_inv [OF Leaf.prems, of ] show ?thesis by simp
  next
    case False
    with base_case_query_inv [OF Leaf.prems(1), of rs] show ?thesis by simp
  qed
next
  case (Inner b r1 r2)
  from Inner.prems(2) have ok: "node_ok pts r1" "node_ok pts r2" by simp_all
  show ?case
  proof (cases "prunable k (minDistance_point b (pts ! qi)) lst")
    case True
    with prune_point_inv [OF Inner.prems] show ?thesis by simp
  next
    case False
    show ?thesis
    proof (cases "minDistance_point (node_bound r1) (pts ! qi) \<le> minDistance_point (node_bound r2) (pts ! qi)")
      case True
      from Inner.IH(2) [OF Inner.IH(1) [OF Inner.prems(1) ok(1)] ok(2)] False True
      show ?thesis by (simp add: ac_simps)
    next
      case nle: False
      from Inner.IH(1) [OF Inner.IH(2) [OF Inner.prems(1) ok(2)] ok(1)] False nle
      show ?thesis by (simp add: ac_simps)
    qed
  qed
qed

lemma base_case_step:
  "distinct qs \<Longrightarrow> table_pre k pts qs M table \<Longrightarrow>
   table_step k pts qs rs M table (base_case k pts qs rs table)"
proof (induction qs arbitrary: table)
  case Nil
  then show ?case by (simp add: table_step_def table_pre_def)
next
  case (Cons qi qs)
  let ?t1 = "table[qi := base_case_query k pts qi rs (table ! qi)]"
  from Cons.prems have qi: "qi < length table" "qi \<notin> set qs"
    and inv: "knn_inv k (qdist pts qi) (M qi) (table ! qi)"
    by (simp_all add: table_pre_def)
  from Cons.prems qi have "table_pre k pts qs M ?t1"
    by (auto simp: table_pre_def nth_list_update)
  with Cons.IH [of ?t1] Cons.prems(1)
  have step: "table_step k pts qs rs M ?t1 (base_case k pts qs rs ?t1)" by simp
  from base_case_query_inv [OF inv, of rs]
  have new: "knn_inv k (qdist pts qi) (M qi + others qi rs) (?t1 ! qi)"
    using qi by simp
  from step qi new show ?case
    by (auto simp: table_step_def table_pre_def nth_list_update)
qed

lemma prune_step:
  assumes "prunable_dual k q r table" "node_ok pts q" "node_ok pts r"
    and "table_pre k pts (node_indices q) M table"
  shows "table_step k pts (node_indices q) (node_indices r) M table table"
proof -
  have "knn_inv k (qdist pts qi) (M qi + others qi (node_indices r)) (table ! qi)"
    if qi: "qi \<in> set (node_indices q)" for qi
  proof (rule knn_inv_skip)
    from assms(4) qi show "knn_inv k (qdist pts qi) (M qi) (table ! qi)"
      by (simp add: table_pre_def)
    from assms(1) qi
    show "prunable k (minDistance_bound (node_bound q) (node_bound r)) (table ! qi)"
      by (simp add: prunable_dual_def list_all_iff)
    show "\<forall>j \<in> set (filter (\<lambda>j. j \<noteq> qi) (node_indices r)).
            minDistance_bound (node_bound q) (node_bound r) \<le> qdist pts qi j"
      using assms(2,3) qi by (auto intro!: minDistance_bound_sound node_ok_contains)
  qed
  with assms(4) show ?thesis by (simp add: table_step_def table_pre_def)
qed

lemma step_pre:
  "table_step k pts qs rs M table table' \<Longrightarrow>
   table_pre k pts qs (\<lambda>qi. M qi + others qi rs) table'"
  by (simp add: table_step_def)

lemma step_expand_r:
  assumes "table_step k pts qs r1 M table t1"
    and "table_step k pts qs r2 (\<lambda>qi. M qi + others qi r1) t1 t2"
  shows "table_step k pts qs (r1 @ r2) M table t2"
    and "table_step k pts qs (r2 @ r1) M table t2"
  using assms by (auto simp: table_step_def table_pre_def ac_simps)

lemma step_expand_q:
  assumes "table_step k pts q1 rs M table t1"
    and "table_step k pts q2 rs M t1 t2"
    and "set q1 \<inter> set q2 = {}"
  shows "table_step k pts (q1 @ q2) rs M table t2"
  using assms unfolding table_step_def table_pre_def
  by (metis (no_types, lifting) Un_iff disjoint_iff set_append)

lemma pre_other:
  assumes "table_step k pts q1 rs M table t1" "table_pre k pts q2 M table"
    and "set q1 \<inter> set q2 = {}"
  shows "table_pre k pts q2 M t1"
  using assms unfolding table_step_def table_pre_def by (metis disjoint_iff)

lemma dual_visit_step:
  "node_ok pts q \<Longrightarrow> node_ok pts r \<Longrightarrow> distinct (node_indices q) \<Longrightarrow>
   table_pre k pts (node_indices q) M table \<Longrightarrow>
   table_step k pts (node_indices q) (node_indices r) M table (dual_visit k pts q r table)"
proof (induction k pts q r table arbitrary: M rule: dual_visit.induct)
  case (1 k pts bq qs br rs table)
  show ?case
  proof (cases "prunable_dual k (Leaf bq qs) (Leaf br rs) table")
    case True
    with prune_step [OF True "1.prems"(1,2,4)] show ?thesis by simp
  next
    case False
    with base_case_step [of qs k pts M table rs] "1.prems" show ?thesis by simp
  qed
next
  case (2 k pts bq qs br r1 r2 table)
  let ?q = "Leaf bq qs"
  from "2.prems"(2) have ok: "node_ok pts r1" "node_ok pts r2" by simp_all
  show ?case
  proof (cases "prunable_dual k ?q (Inner br r1 r2) table")
    case True
    with prune_step [OF True "2.prems"(1,2,4)] show ?thesis by simp
  next
    case False
    show ?thesis
    proof (cases "minDistance_bound bq (node_bound r1) \<le> minDistance_bound bq (node_bound r2)")
      case True
      have s1: "table_step k pts (node_indices ?q) (node_indices r1) M table
                  (dual_visit k pts ?q r1 table)"
        using "2.IH"(1) [OF False True "2.prems"(1) ok(1) "2.prems"(3,4)] .
      have s2: "table_step k pts (node_indices ?q) (node_indices r2)
                  (\<lambda>qi. M qi + others qi (node_indices r1)) (dual_visit k pts ?q r1 table)
                  (dual_visit k pts ?q r2 (dual_visit k pts ?q r1 table))"
        using "2.IH"(2) [OF False True "2.prems"(1) ok(2) "2.prems"(3) step_pre [OF s1]] .
      from step_expand_r(1) [OF s1 s2] False True show ?thesis by simp
    next
      case nle: False
      have s1: "table_step k pts (node_indices ?q) (node_indices r2) M table
                  (dual_visit k pts ?q r2 table)"
        using "2.IH"(3) [OF False nle "2.prems"(1) ok(2) "2.prems"(3,4)] .
      have s2: "table_step k pts (node_indices ?q) (node_indices r1)
                  (\<lambda>qi. M qi + others qi (node_indices r2)) (dual_visit k pts ?q r2 table)
                  (dual_visit k pts ?q r1 (dual_visit k pts ?q r2 table))"
        using "2.IH"(4) [OF False nle "2.prems"(1) ok(1) "2.prems"(3) step_pre [OF s1]] .
      from step_expand_r(2) [OF s1 s2] False nle show ?thesis by simp
    qed
  qed
next
  case (3 k pts bq q1 q2 br rs table)
  let ?r = "Leaf br rs"
  from "3.prems"(1) have ok: "node_ok pts q1" "node_ok pts q2" by simp_all
  from "3.prems"(3) have d: "distinct (node_indices q1)" "distinct (node_indices q2)"
    "set (node_indices q1) \<inter> set (node_indices q2) = {}" by simp_all
  from "3.prems"(4) have pre: "table_pre k pts (node_indices q1) M table"
    "table_pre k pts (node_indices q2) M table" by (simp_all add: table_pre_def)
  show ?case
  proof (cases "prunable_dual k (Inner bq q1 q2) ?r table")
    case True
    with prune_step [OF True "3.prems"(1,2,4)] show ?thesis by simp
  next
    case False
    have s1: "table_step k pts (node_indices q1) (node_indices ?r) M table
                (dual_visit k pts q1 ?r table)"
      using "3.IH"(1) [OF False ok(1) "3.prems"(2) d(1) pre(1)] .
    have s2: "table_step k pts (node_indices q2) (node_indices ?r) M
                (dual_visit k pts q1 ?r table)
                (dual_visit k pts q2 ?r (dual_visit k pts q1 ?r table))"
      using "3.IH"(2) [OF False ok(2) "3.prems"(2) d(2) pre_other [OF s1 pre(2) d(3)]] .
    from step_expand_q [OF s1 s2 d(3)] False show ?thesis by simp
  qed
next
  case (4 k pts bq q1 q2 br r1 r2 table)
  let ?q = "Inner bq q1 q2" and ?r = "Inner br r1 r2"
  from "4.prems"(1) have okq: "node_ok pts q1" "node_ok pts q2" by simp_all
  from "4.prems"(2) have okr: "node_ok pts r1" "node_ok pts r2" by simp_all
  from "4.prems"(3) have d: "distinct (node_indices q1)" "distinct (node_indices q2)"
    "set (node_indices q1) \<inter> set (node_indices q2) = {}" by simp_all
  from "4.prems"(4) have pre: "table_pre k pts (node_indices q1) M table"
    "table_pre k pts (node_indices q2) M table" by (simp_all add: table_pre_def)
  show ?case
  proof (cases "prunable_dual k ?q ?r table")
    case True
    with prune_step [OF True "4.prems"(1,2,4)] show ?thesis by simp
  next
    case False
    show ?thesis
    proof (cases "sqDiameter br \<le> sqDiameter bq")
      case True
      have s1: "table_step k pts (node_indices q1) (node_indices ?r) M table
                  (dual_visit k pts q1 ?r table)"
        using "4.IH"(1) [OF False True okq(1) "4.prems"(2) d(1) pre(1)] .
      have s2: "table_step k pts (node_indices q2) (node_indices ?r) M
                  (dual_visit k pts q1 ?r table)
                  (dual_visit k pts q2 ?r (dual_visit k pts q1 ?r table))"
        using "4.IH"(2) [OF False True okq(2) "4.prems"(2) d(2) pre_other [OF s1 pre(2) d(3)]] .
      from step_expand_q [OF s1 s2 d(3)] False True show ?thesis by simp
    next
      case small: False
      show ?thesis
      proof (cases "minDistance_bound bq (node_bound r1) \<le> minDistance_bound bq (node_bound r2)")
        case True
        have s1: "table_step k pts (node_indices ?q) (node_indices r1) M table
                    (dual_visit k pts ?q r1 table)"
          using "4.IH"(3) [OF False small True "4.prems"(1) okr(1) "4.prems"(3,4)] .
        have s2: "table_step k pts (node_indices ?q) (node_indices r2)
                    (\<lambda>qi. M qi + others qi (node_indices r1)) (dual_visit k pts ?q r1 table)
                    (dual_visit k pts ?q r2 (dual_visit k pts ?q r1 table))"
          using "4.IH"(4) [OF False small True "4.prems"(1) okr(2) "4.prems"(3) step_pre [OF s1]] .
        from step_expand_r(1) [OF s1 s2] False small True show ?thesis by simp
      next
        case nle: False
        have s1: "table_step k pts (node_indices ?q) (node_indices r2) M table
                    (dual_visit k pts ?q r2 table)"
          using "4.IH"(5) [OF False small nle "4.prems"(1) okr(2) "4.prems"(3,4)] .
        have s2: "table_step k pts (node_indices ?q) (node_indices r1)
                    (\<lambda>qi. M qi + others qi (node_indices r2)) (dual_visit k pts ?q r2 table)
                    (dual_visit k pts ?q r1 (dual_visit k pts ?q r2 table))"
          using "4.IH"(6) [OF False small nle "4.prems"(1) okr(1) "4.prems"(3) step_pre [OF s1]] .
        from step_expand_r(2) [OF s1 s2] False small nle show ?thesis by simp
      qed
    qed
  qed
qed

lemma tree_ok_mset: "tree_ok pts tree \<Longrightarrow> mset (node_indices tree) = mset [0 ..< length pts]"
  by (metis tree_ok_def mset_sort)

lemma tree_ok_others:
  "tree_ok pts tree \<Longrightarrow> others qi (node_indices tree) = others qi [0 ..< length pts]"
  by (metis tree_ok_mset mset_filter)

lemma tree_ok_distinct: "tree_ok pts tree \<Longrightarrow> distinct (node_indices tree)"
  by (metis tree_ok_mset distinct_upt mset_eq_imp_distinct_iff)

lemma tree_ok_set: "tree_ok pts tree \<Longrightarrow> set (node_indices tree) = {0 ..< length pts}"
  by (metis tree_ok_mset mset_eq_setD set_upt)

lemma empty_table_pre: "set qs \<subseteq> {0 ..< n} \<Longrightarrow> table_pre k pts qs (\<lambda>qi. {#}) (replicate n [])"
  by (auto simp: table_pre_def knn_inv_empty)

lemma modes_inv:
  assumes "tree_ok pts tree"
  shows "length (ComputeNeighbors mode k pts tree) = length pts
    \<and> (\<forall>qi < length pts.
         knn_inv k (qdist pts qi) (others qi [0 ..< length pts])
           (ComputeNeighbors mode k pts tree ! qi))"
proof (cases mode)
  case Naive
  have "table_step k pts [0 ..< length pts] [0 ..< length pts] (\<lambda>qi. {#})
          (replicate (length pts) []) (ComputeNeighbors Naive k pts tree)"
    by (simp add: base_case_step empty_table_pre ComputeNeighbors.simps)
  with Naive show ?thesis by (simp add: table_step_def table_pre_def)
next
  case SingleTree
  from assms have ok: "node_ok pts tree" by (simp add: tree_ok_def)
  have "knn_inv k (qdist pts qi) (others qi [0 ..< length pts]) (single_visit k pts qi tree [])"
    for qi
    using single_visit_inv [OF knn_inv_empty ok, of k qi] tree_ok_others [OF assms, of qi]
    by simp
  with SingleTree show ?thesis by (simp add: ComputeNeighbors.simps)
next
  case DualTree
  from assms have ok: "node_ok pts tree" by (simp add: tree_ok_def)
  have "table_step k pts (node_indices tree) (node_indices tree) (\<lambda>qi. {#})
          (replicate (length pts) []) (ComputeNeighbors DualTree k pts tree)"
    using dual_visit_step [OF ok ok tree_ok_distinct [OF assms]]
      empty_table_pre [of "node_indices tree" "length pts"] tree_ok_set [OF assms]
    by (simp add: ComputeNeighbors.simps)
  with DualTree show ?thesis
    using tree_ok_others [OF assms] tree_ok_set [OF assms]
    by (simp add: table_step_def table_pre_def)
qed

lemma modes_row:
  assumes "tree_ok pts tree" "qi < length pts"
  shows "knn_inv k (qdist pts qi) (others qi [0 ..< length pts])
           (ComputeNeighbors mode k pts tree ! qi)"
  using modes_inv [OF assms(1), of mode k] assms(2) by blast

lemma modes_length:
  assumes "tree_ok pts tree"
  shows "length (ComputeNeighbors mode k pts tree) = length pts"
  using modes_inv [OF assms, of mode k] by blast

lemma modes_tables:
  assumes "tree_ok pts tree"
  shows "ComputeNeighbors mode k pts tree = ComputeNeighbors Naive k pts tree"
proof (rule nth_equalityI)
  show "length (ComputeNeighbors mode k pts tree) = length (ComputeNeighbors Naive k pts tree)"
    by (simp add: modes_length [OF assms])
  fix qi assume "qi < length (ComputeNeighbors mode k pts tree)"
  then have qi: "qi < length pts" by (simp add: modes_length [OF assms])
  show "ComputeNeighbors mode k pts tree ! qi = ComputeNeighbors Naive k pts tree ! qi"
    by (rule knn_inv_unique [OF modes_row [OF assms qi] modes_row [OF assms qi]])
qed

subsection \<open>The three modes\<close>


lemma scenarioTree_ok: "tree_ok scenario scenarioTree"
  by (simp add: tree_ok_def scenario_def scenarioTree_def Contains_def)



lemma base_case_other:
  "qi \<notin> set qs \<Longrightarrow> base_case k pts qs rs table ! qi = table ! qi"
  by (induction qs arbitrary: table) auto

lemma base_case_nth:
  "distinct qs \<Longrightarrow> qi \<in> set qs \<Longrightarrow> qi < length table \<Longrightarrow>
   base_case k pts qs rs table ! qi = base_case_query k pts qi rs (table ! qi)"
proof (induction qs arbitrary: table)
  case Nil
  then show ?case by simp
next
  case (Cons q qs)
  show ?case
  proof (cases "qi = q")
    case True
    with Cons.prems show ?thesis by (simp add: base_case_other)
  next
    case False
    with Cons.IH [of "table[q := base_case_query k pts q rs (table ! q)]"] Cons.prems
    show ?thesis by simp
  qed
qed

lemma naive_row:
  "qi < length pts \<Longrightarrow>
   ComputeNeighbors Naive k pts tree ! qi = base_case_query k pts qi [0 ..< length pts] []"
  by (simp add: ComputeNeighbors.simps base_case_nth)

lemma scenario_naive_row_0:
  "base_case_query 10 scenario 0 [0 ..< length scenario] []
   = [(0.01, 2), (0.0625, 5), (0.09, 1), (0.16, 8), (0.7225, 9), (0.9025, 10),
      (1.44, 3), (1.8225, 7), (4.2025, 6), (25.0, 4)]"
  by (simp add: scenario_def sqdist_def upt_rec update_topk_def power2_eq_square)

text \<open>
  C2: on the eleven-point dataset of the scenario with \<open>k = 10\<close>, in each of the
  three modes and with every tree that keeps the invariant, the neighbours of point 0
  are the indices 2, 5, 1, 8, 9, 10, 3, 7, 6, 4, in ascending order of distance, with
  the squared distances 0.01, 0.0625, 0.09, 0.16, 0.7225, 0.9025, 1.44, 1.8225, 4.2025
  and 25, exactly and so within the tolerance.
\<close>

theorem scenario_neighbors_of_point_0:
  assumes "tree_ok scenario tree"
  shows "\<forall>mode.
           map snd (ComputeNeighbors mode 10 scenario tree ! 0) = [2, 5, 1, 8, 9, 10, 3, 7, 6, 4]
         \<and> map fst (ComputeNeighbors mode 10 scenario tree ! 0)
             = [0.01, 0.0625, 0.09, 0.16, 0.7225, 0.9025, 1.44, 1.8225, 4.2025, 25.0]"
proof
  fix mode
  have len: "0 < length scenario" by (simp add: scenario_def)
  have "ComputeNeighbors mode 10 scenario tree ! 0 = ComputeNeighbors Naive 10 scenario tree ! 0"
    by (simp add: modes_tables [OF assms, of mode 10])
  also have "\<dots> = base_case_query 10 scenario 0 [0 ..< length scenario] []"
    using len by (rule naive_row)
  finally show "map snd (ComputeNeighbors mode 10 scenario tree ! 0) = [2, 5, 1, 8, 9, 10, 3, 7, 6, 4]
         \<and> map fst (ComputeNeighbors mode 10 scenario tree ! 0)
             = [0.01, 0.0625, 0.09, 0.16, 0.7225, 0.9025, 1.44, 1.8225, 4.2025, 25.0]"
    by (simp add: scenario_naive_row_0)
qed

theorem scenario_neighbors_of_point_0_witness:
  "tree_ok scenario scenarioTree
   \<and> map snd (ComputeNeighbors Naive 10 scenario scenarioTree ! 0) = [2, 5, 1, 8, 9, 10, 3, 7, 6, 4]
   \<and> map snd (ComputeNeighbors SingleTree 10 scenario scenarioTree ! 0) = [2, 5, 1, 8, 9, 10, 3, 7, 6, 4]
   \<and> map snd (ComputeNeighbors DualTree 10 scenario scenarioTree ! 0) = [2, 5, 1, 8, 9, 10, 3, 7, 6, 4]
   \<and> map fst (ComputeNeighbors DualTree 10 scenario scenarioTree ! 0)
       = [0.01, 0.0625, 0.09, 0.16, 0.7225, 0.9025, 1.44, 1.8225, 4.2025, 25.0]"
  using scenario_neighbors_of_point_0 [OF scenarioTree_ok] scenarioTree_ok by simp

end
